theory Spec2Isabelle
  imports Main
begin

section \<open>Strings\<close>

text \<open>
  The service works on JavaScript strings. A \<^typ>\<open>char\<close> of the model stands for one
  UTF-16 code unit below 256, so the strings of the model are the Latin-1 strings of the
  program. The operations below are the string methods that \<open>rfcService.ts\<close> calls.
\<close>

definition LF :: char where
  "LF = CHR 0x0A"

definition CR :: char where
  "CR = CHR 0x0D"

text \<open>
  White space and line terminators: the characters that \<open>\s\<close> matches and that
  \<open>String.prototype.trim\<close> removes (tab, line feed, vertical tab, form feed, carriage
  return, space, no-break space).
\<close>

definition is_space :: "char \<Rightarrow> bool" where
  "is_space c = (c \<in> set [CHR 0x09, CHR 0x0A, CHR 0x0B, CHR 0x0C, CHR 0x0D, CHR 0x20, CHR 0xA0])"

text \<open>\<open>\d\<close>\<close>

definition is_digit :: "char \<Rightarrow> bool" where
  "is_digit c = (c \<in> set ''0123456789'')"

text \<open>\<open>.\<close> without the \<open>s\<close> flag: any character but a line terminator.\<close>

definition is_dot :: "char \<Rightarrow> bool" where
  "is_dot c = (c \<noteq> LF \<and> c \<noteq> CR)"

text \<open>\<open>.\<close> with the \<open>s\<close> flag: any character.\<close>

definition is_any :: "char \<Rightarrow> bool" where
  "is_any c = True"

text \<open>
  Canonicalisation under the \<open>i\<close> flag, for the ASCII letters the patterns of the service
  are written in: a lower-case ASCII letter is mapped to its upper-case form.
\<close>

definition ascii_upper :: "char \<Rightarrow> char" where
  "ascii_upper c =
     (case map_of (zip ''abcdefghijklmnopqrstuvwxyz'' ''ABCDEFGHIJKLMNOPQRSTUVWXYZ'') c of
        Some u \<Rightarrow> u
      | None \<Rightarrow> c)"

text \<open>\<open>s.trim()\<close>\<close>

definition trim :: "string \<Rightarrow> string" where
  "trim s = rev (dropWhile is_space (rev (dropWhile is_space s)))"

text \<open>\<open>s.split('\n')\<close>: never the empty list; the empty string gives one empty line.\<close>

fun split_nl :: "string \<Rightarrow> string list" where
  "split_nl [] = [[]]"
| "split_nl (c # cs) =
     (if c = LF then [] # split_nl cs
      else (case split_nl cs of l # ls \<Rightarrow> (c # l) # ls | [] \<Rightarrow> [[c]]))"

text \<open>\<open>xs.join('\n')\<close>\<close>

fun join_nl :: "string list \<Rightarrow> string" where
  "join_nl [] = []"
| "join_nl [l] = l"
| "join_nl (l # ls) = l @ LF # join_nl ls"

text \<open>\<open>s.replace(/\n/g, ' ')\<close>\<close>

definition replace_nl :: "string \<Rightarrow> string" where
  "replace_nl s = map (\<lambda>c. if c = LF then CHR '' '' else c) s"

text \<open>\<open>s.startsWith(p)\<close>\<close>

definition startsWith :: "string \<Rightarrow> string \<Rightarrow> bool" where
  "startsWith s p = (take (length p) s = p)"

section \<open>Regular expressions\<close>

text \<open>
  The patterns of the service, as syntax trees, and the backtracking matcher of
  ECMAScript: a matcher takes the continuation that matches the rest of the pattern and a
  state, and returns the first successful state in the order in which the alternatives
  are tried. A state is the input that is left and the span of capture group 1, kept as
  the input left at its start and at its end.
\<close>

datatype rx =
    Atom "char \<Rightarrow> bool"
  | Eps
  | Seq rx rx
  | Alt rx rx
  | Star rx
  | Lazy rx
  | Group rx
  | Bol
  | Eol

type_synonym mstate = "string \<times> (string \<times> string) option"

type_synonym matcher = "(mstate \<Rightarrow> mstate option) \<Rightarrow> mstate \<Rightarrow> mstate option"

text \<open>
  \<open>r*\<close>, greedy: one more iteration is tried first, then the continuation. An iteration
  that consumes nothing is rejected (the empty check of RepeatMatcher).
\<close>

function star_greedy :: "matcher \<Rightarrow> matcher" where
  "star_greedy m k st =
     (case m (\<lambda>st'. if length (fst st') < length (fst st) then star_greedy m k st' else None) st of
        Some r \<Rightarrow> Some r
      | None \<Rightarrow> k st)"
  by pat_completeness auto
termination
  by (relation "measure (\<lambda>(m, k, st). length (fst st))") auto

text \<open>\<open>r*?\<close>, lazy: the continuation is tried first, then one more iteration.\<close>

function star_lazy :: "matcher \<Rightarrow> matcher" where
  "star_lazy m k st =
     (case k st of
        Some r \<Rightarrow> Some r
      | None \<Rightarrow> m (\<lambda>st'. if length (fst st') < length (fst st) then star_lazy m k st' else None) st)"
  by pat_completeness auto
termination
  by (relation "measure (\<lambda>(m, k, st). length (fst st))") auto

declare star_greedy.simps [simp del] star_lazy.simps [simp del]

text \<open>The matcher of a pattern on the input \<open>s\<close>. \<open>^\<close> and \<open>$\<close> are without the \<open>m\<close> flag.\<close>

primrec rmatch :: "rx \<Rightarrow> string \<Rightarrow> matcher" where
  "rmatch (Atom p) s = (\<lambda>k st.
     (case fst st of
        [] \<Rightarrow> None
      | c # cs \<Rightarrow> if p c then k (cs, snd st) else None))"
| "rmatch Eps s = (\<lambda>k st. k st)"
| "rmatch (Seq a b) s = (\<lambda>k st. rmatch a s (rmatch b s k) st)"
| "rmatch (Alt a b) s = (\<lambda>k st.
     (case rmatch a s k st of
        Some r \<Rightarrow> Some r
      | None \<Rightarrow> rmatch b s k st))"
| "rmatch (Star a) s = star_greedy (rmatch a s)"
| "rmatch (Lazy a) s = star_lazy (rmatch a s)"
| "rmatch (Group a) s = (\<lambda>k st. rmatch a s (\<lambda>st'. k (fst st', Some (fst st, fst st'))) st)"
| "rmatch Bol s = (\<lambda>k st. if length (fst st) = length s then k st else None)"
| "rmatch Eol s = (\<lambda>k st. if fst st = [] then k st else None)"

text \<open>\<open>r+\<close>, \<open>r?\<close>, a literal character, and a literal word under the \<open>i\<close> flag.\<close>

definition Plus :: "rx \<Rightarrow> rx" where
  "Plus r = Seq r (Star r)"

definition Opt :: "rx \<Rightarrow> rx" where
  "Opt r = Alt r Eps"

definition Chr :: "char \<Rightarrow> rx" where
  "Chr c = Atom (\<lambda>x. x = c)"

definition lit_i :: "string \<Rightarrow> rx" where
  "lit_i w = foldr (\<lambda>c r. Seq (Atom (\<lambda>x. ascii_upper x = ascii_upper c)) r) w Eps"

text \<open>
  \<open>s.match(r)\<close> for a pattern without the \<open>g\<close> flag: the match is tried at every start
  position from the left, and the first success wins. The result is the final state of
  the match, or \<open>None\<close> for \<open>null\<close>.
\<close>

fun search :: "rx \<Rightarrow> string \<Rightarrow> string \<Rightarrow> mstate option" where
  "search r s [] = rmatch r s Some ([], None)"
| "search r s (c # cs) =
     (case rmatch r s Some (c # cs, None) of
        Some st \<Rightarrow> Some st
      | None \<Rightarrow> search r s cs)"

definition match :: "string \<Rightarrow> rx \<Rightarrow> mstate option" where
  "match s r = search r s s"

text \<open>\<open>m[1]\<close> of a match: the text of capture group 1, \<open>None\<close> for \<open>undefined\<close>.\<close>

definition group1 :: "mstate \<Rightarrow> string option" where
  "group1 st =
     (case snd st of
        None \<Rightarrow> None
      | Some (b, e) \<Rightarrow> Some (take (length b - length e) b))"

text \<open>
  \<open>m && m[1]\<close>: the text of group 1 when the pattern matched and the group is a
  non-empty string.
\<close>

definition truthy_group1 :: "mstate option \<Rightarrow> string option" where
  "truthy_group1 m =
     (case m of
        None \<Rightarrow> None
      | Some st \<Rightarrow>
          (case group1 st of
             None \<Rightarrow> None
           | Some g \<Rightarrow> if g = [] then None else Some g))"

section \<open>The document model\<close>

text \<open>
  \<open>RfcMetadata\<close> and \<open>RfcContent\<close>. An entry of \<open>sections\<close> has a title, a content
  and optional subsections (\<open>None\<close> for \<open>undefined\<close>); the fields of an entry are
  prefixed, since the metadata has a \<open>title\<close> too.
\<close>

record RfcMetadata =
  number :: string
  title :: string
  authors :: "string list"
  date :: string
  status :: string
  abstract :: string
  url :: string

record rfc_subsection =
  sub_title :: string
  sub_content :: string

record rfc_section =
  sec_title :: string
  sec_content :: string
  subsections :: "rfc_subsection list option"

record RfcContent =
  metadata :: RfcMetadata
  sections :: "rfc_section list"
  fullText :: string

section \<open>The text parser\<close>

text \<open>A list of patterns in sequence.\<close>

definition seq :: "rx list \<Rightarrow> rx" where
  "seq rs = foldr Seq rs Eps"

text \<open>\<open>\r?\n\<close>\<close>

definition rx_nl :: rx where
  "rx_nl = Seq (Opt (Chr CR)) (Chr LF)"

text \<open>\<open>(?:\r?\n\r?\n|\r?\n\s*\r?\n)\<close>\<close>

definition rx_blank :: rx where
  "rx_blank = Alt (Seq rx_nl rx_nl) (seq [rx_nl, Star (Atom is_space), rx_nl])"

text \<open>\<open>/(?:Title|Internet-Draft):\s*(.*?)(?:\r?\n\r?\n|\r?\n\s*\r?\n)/i\<close>\<close>

definition titleRegex :: rx where
  "titleRegex =
     seq [Alt (lit_i ''Title'') (lit_i ''Internet-Draft''), Chr (CHR '':''), Star (Atom is_space),
          Group (Lazy (Atom is_dot)), rx_blank]"

text \<open>\<open>/(?:Author|Authors):\s*(.*?)(?:\r?\n\r?\n|\r?\n\s*\r?\n)/is\<close>\<close>

definition authorRegex :: rx where
  "authorRegex =
     seq [Alt (lit_i ''Author'') (lit_i ''Authors''), Chr (CHR '':''), Star (Atom is_space),
          Group (Lazy (Atom is_any)), rx_blank]"

text \<open>\<open>/(?:Date|Published):\s*(.*?)(?:\r?\n)/i\<close>\<close>

definition dateRegex :: rx where
  "dateRegex =
     seq [Alt (lit_i ''Date'') (lit_i ''Published''), Chr (CHR '':''), Star (Atom is_space),
          Group (Lazy (Atom is_dot)), rx_nl]"

text \<open>\<open>/(?:Status of this Memo|Category):\s*(.*?)(?:\r?\n\r?\n|\r?\n\s*\r?\n)/is\<close>\<close>

definition statusRegex :: rx where
  "statusRegex =
     seq [Alt (lit_i ''Status of this Memo'') (lit_i ''Category''), Chr (CHR '':''),
          Star (Atom is_space), Group (Lazy (Atom is_any)), rx_blank]"

text \<open>\<open>/(?:Abstract)\s*(?:\r?\n)+\s*(.*?)(?:\r?\n\r?\n|\r?\n\s*\r?\n)/is\<close>\<close>

definition abstractRegex :: rx where
  "abstractRegex =
     seq [lit_i ''Abstract'', Star (Atom is_space), Plus rx_nl, Star (Atom is_space),
          Group (Lazy (Atom is_any)), rx_blank]"

text \<open>\<open>/^(?:\d+\.)+\s+(.+)$/\<close>\<close>

definition sectionRegex :: rx where
  "sectionRegex =
     seq [Bol, Plus (Seq (Plus (Atom is_digit)) (Chr (CHR ''.''))), Plus (Atom is_space),
          Group (Plus (Atom is_dot)), Eol]"

text \<open>
  The metadata fields of \<open>parseTxtRfc\<close>, each with the default it keeps when the pattern
  does not match or group 1 is empty.
\<close>

definition txt_title :: "string \<Rightarrow> string \<Rightarrow> string" where
  "txt_title text rfcNumber =
     (case truthy_group1 (match text titleRegex) of
        Some g \<Rightarrow> trim g
      | None \<Rightarrow> ''RFC '' @ rfcNumber)"

definition txt_authors :: "string \<Rightarrow> string list" where
  "txt_authors text =
     (case truthy_group1 (match text authorRegex) of
        Some g \<Rightarrow>
          filter (\<lambda>trimmedLine. trimmedLine \<noteq> [] \<and> \<not> startsWith trimmedLine ''Authors:'')
            (map trim (split_nl g))
      | None \<Rightarrow> [])"

definition txt_date :: "string \<Rightarrow> string" where
  "txt_date text =
     (case truthy_group1 (match text dateRegex) of
        Some g \<Rightarrow> trim g
      | None \<Rightarrow> [])"

definition txt_status :: "string \<Rightarrow> string" where
  "txt_status text =
     (case truthy_group1 (match text statusRegex) of
        Some g \<Rightarrow> trim (replace_nl g)
      | None \<Rightarrow> [])"

definition txt_abstract :: "string \<Rightarrow> string" where
  "txt_abstract text =
     (case truthy_group1 (match text abstractRegex) of
        Some g \<Rightarrow> trim (replace_nl g)
      | None \<Rightarrow> [])"

text \<open>
  The section loop. Its variables are \<open>sections\<close>, \<open>currentSection\<close> (\<open>None\<close> for
  \<open>null\<close>) and \<open>currentContent\<close>. \<open>line.match(sectionRegex)\<close> gives group 1 of a
  header line, and \<open>None\<close> for a line that does not match; the loop tests the match only.
\<close>

record scan_state =
  st_sections :: "rfc_section list"
  currentSection :: "string option"
  currentContent :: "string list"

definition sectionMatch :: "string \<Rightarrow> string option" where
  "sectionMatch line =
     (case match line sectionRegex of
        None \<Rightarrow> None
      | Some m \<Rightarrow> Some (case group1 m of Some g \<Rightarrow> g | None \<Rightarrow> []))"

text \<open>
  \<open>if (currentSection !== null && currentContent.length > 0) sections.push(...)\<close>:
  the sections after the push, if there is one.
\<close>

definition flush :: "scan_state \<Rightarrow> rfc_section list" where
  "flush st =
     (case currentSection st of
        Some t \<Rightarrow>
          if currentContent st \<noteq> []
          then st_sections st @
                 [\<lparr>sec_title = t, sec_content = join_nl (currentContent st), subsections = None\<rparr>]
          else st_sections st
      | None \<Rightarrow> st_sections st)"

definition scan_line :: "scan_state \<Rightarrow> string \<Rightarrow> scan_state" where
  "scan_line st line =
     (case sectionMatch line of
        Some g \<Rightarrow>
          \<lparr>st_sections = flush st, currentSection = Some (trim g), currentContent = []\<rparr>
      | None \<Rightarrow>
          (case currentSection st of
             Some t \<Rightarrow> st\<lparr>currentContent := currentContent st @ [line]\<rparr>
           | None \<Rightarrow> st))"

definition scan_init :: scan_state where
  "scan_init = \<lparr>st_sections = [], currentSection = None, currentContent = []\<rparr>"

definition txt_sections :: "string list \<Rightarrow> rfc_section list" where
  "txt_sections lines = flush (foldl scan_line scan_init lines)"

definition parseTxtRfc :: "string \<Rightarrow> string \<Rightarrow> string \<Rightarrow> RfcContent" where
  "parseTxtRfc text rfcNumber u =
     \<lparr>metadata =
        \<lparr>number = rfcNumber,
         title = txt_title text rfcNumber,
         authors = txt_authors text,
         date = txt_date text,
         status = txt_status text,
         abstract = txt_abstract text,
         url = u\<rparr>,
      sections = txt_sections (split_nl text),
      fullText = text\<rparr>"

section \<open>The document tree\<close>

text \<open>
  The tree that \<open>new JSDOM(html).window.document\<close> gives, as far as the service looks
  at it: an element has a tag name (lower case, as the HTML parser leaves it), its class
  names and its child nodes.
\<close>

datatype node =
    Element string "string list" "node list"
  | Text string
  | Comment string

text \<open>\<open>node.textContent\<close>: the text of all text nodes below the node, in tree order.\<close>

fun textContent :: "node \<Rightarrow> string" where
  "textContent (Element t cs ns) = concat (map textContent ns)"
| "textContent (Text s) = s"
| "textContent (Comment s) = []"

text \<open>
  The selectors the service uses: a tag name, a class name, or two of these joined by
  the descendant combinator; a selector list is a list of them.
\<close>

datatype simple_selector = Tag string | Class string

datatype selector = Simple simple_selector | Descendant simple_selector simple_selector

fun matches_simple :: "simple_selector \<Rightarrow> node \<Rightarrow> bool" where
  "matches_simple (Tag t) (Element t' cs ns) = (t' = t)"
| "matches_simple (Class c) (Element t' cs ns) = (c \<in> set cs)"
| "matches_simple sel (Text s) = False"
| "matches_simple sel (Comment s) = False"

text \<open>An element of the tree is kept with its ancestors, the nearest first.\<close>

type_synonym element = "node list \<times> node"

fun matches_selector :: "selector \<Rightarrow> element \<Rightarrow> bool" where
  "matches_selector (Simple a) (anc, n) = matches_simple a n"
| "matches_selector (Descendant a b) (anc, n) =
     (matches_simple b n \<and> (\<exists>p \<in> set anc. matches_simple a p))"

text \<open>The elements of a subtree in document order, the root of the subtree first.\<close>

fun elements :: "node list \<Rightarrow> node \<Rightarrow> element list" where
  "elements anc (Element t cs ns) =
     (anc, Element t cs ns) # concat (map (elements (Element t cs ns # anc)) ns)"
| "elements anc (Text s) = []"
| "elements anc (Comment s) = []"

text \<open>
  An element matches a selector list when it matches one of its selectors.
  \<open>document.querySelectorAll(sel)\<close> looks at every element of the document;
  \<open>el.querySelectorAll(sel)\<close> looks at the descendants of \<open>el\<close>, not at \<open>el\<close> itself.
  \<open>querySelector\<close> gives the first element of the same list, \<open>None\<close> for \<open>null\<close>.
\<close>

definition descendants :: "element \<Rightarrow> element list" where
  "descendants el =
     (case snd el of
        Element t cs ns \<Rightarrow> concat (map (elements (snd el # fst el)) ns)
      | Text s \<Rightarrow> []
      | Comment s \<Rightarrow> [])"

definition matches_any :: "selector list \<Rightarrow> element \<Rightarrow> bool" where
  "matches_any sels el = (\<exists>sel \<in> set sels. matches_selector sel el)"

definition select :: "selector list \<Rightarrow> element list \<Rightarrow> element list" where
  "select sels els = filter (matches_any sels) els"

definition document_querySelectorAll :: "node \<Rightarrow> selector list \<Rightarrow> element list" where
  "document_querySelectorAll doc sels = select sels (elements [] doc)"

definition querySelectorAll :: "element \<Rightarrow> selector list \<Rightarrow> element list" where
  "querySelectorAll el sels = select sels (descendants el)"

definition first :: "element list \<Rightarrow> element option" where
  "first els = (case els of [] \<Rightarrow> None | el # rest \<Rightarrow> Some el)"

definition document_querySelector :: "node \<Rightarrow> selector list \<Rightarrow> element option" where
  "document_querySelector doc sels = first (document_querySelectorAll doc sels)"

definition querySelector :: "element \<Rightarrow> selector list \<Rightarrow> element option" where
  "querySelector el sels = first (querySelectorAll el sels)"

section \<open>The HTML parser\<close>

text \<open>
  \<open>x?.textContent?.trim() || d\<close>: the trimmed text of the element found, and \<open>d\<close>
  when no element was found or its trimmed text is empty.
\<close>

definition trimmed_text_or :: "element option \<Rightarrow> string \<Rightarrow> string" where
  "trimmed_text_or x d =
     (case x of
        None \<Rightarrow> d
      | Some el \<Rightarrow> if trim (textContent (snd el)) = [] then d else trim (textContent (snd el)))"

text \<open>
  The body of the loop over the nested \<open>section\<close> elements of one section element:
  the subsection it pushes, if any. \<open>innerHTML\<close> is the serialiser of the tree library.
\<close>

definition html_subsection :: "(node \<Rightarrow> string) \<Rightarrow> element \<Rightarrow> rfc_subsection list" where
  "html_subsection innerHTML subsectionEl =
     (let subsectionTitle =
            trimmed_text_or (querySelector subsectionEl [Simple (Tag ''h3''), Simple (Tag ''h4''),
              Simple (Tag ''h5'')]) [];
          subsectionContent = innerHTML (snd subsectionEl)
      in if subsectionTitle \<noteq> []
         then [\<lparr>sub_title = subsectionTitle, sub_content = subsectionContent\<rparr>]
         else [])"

definition html_subsections :: "(node \<Rightarrow> string) \<Rightarrow> element \<Rightarrow> rfc_subsection list" where
  "html_subsections innerHTML sectionEl =
     concat (map (html_subsection innerHTML) (querySelectorAll sectionEl [Simple (Tag ''section'')]))"

text \<open>The body of the loop over the \<open>section\<close> elements of the document.\<close>

definition html_section :: "(node \<Rightarrow> string) \<Rightarrow> element \<Rightarrow> rfc_section list" where
  "html_section innerHTML sectionEl =
     (let sectionTitle =
            trimmed_text_or (querySelector sectionEl [Simple (Tag ''h2''), Simple (Tag ''h3''),
              Simple (Tag ''h4'')]) [];
          sectionContent = innerHTML (snd sectionEl);
          subs = html_subsections innerHTML sectionEl
      in if sectionTitle \<noteq> []
         then [\<lparr>sec_title = sectionTitle, sec_content = sectionContent,
                 subsections = (if subs \<noteq> [] then Some subs else None)\<rparr>]
         else [])"

definition html_sections :: "(node \<Rightarrow> string) \<Rightarrow> node \<Rightarrow> rfc_section list" where
  "html_sections innerHTML doc =
     concat (map (html_section innerHTML) (document_querySelectorAll doc [Simple (Tag ''section'')]))"

definition html_authors :: "node \<Rightarrow> string list" where
  "html_authors doc =
     filter (\<lambda>authorName. authorName \<noteq> [])
       (map (\<lambda>authorEl. trim (textContent (snd authorEl)))
          (document_querySelectorAll doc [Descendant (Class ''authors'') (Class ''author'')]))"

text \<open>\<open>parseHtmlRfc\<close> from the document on, that is after \<open>new JSDOM(html)\<close>.\<close>

definition parseHtmlDocument :: "(node \<Rightarrow> string) \<Rightarrow> node \<Rightarrow> string \<Rightarrow> string \<Rightarrow> RfcContent" where
  "parseHtmlDocument innerHTML doc rfcNumber u =
     \<lparr>metadata =
        \<lparr>number = rfcNumber,
         title = trimmed_text_or (document_querySelector doc [Simple (Tag ''h1'')]) (''RFC '' @ rfcNumber),
         authors = html_authors doc,
         date = trimmed_text_or (document_querySelector doc [Simple (Class ''pubdate'')]) [],
         status = trimmed_text_or (document_querySelector doc [Simple (Class ''status'')]) [],
         abstract = trimmed_text_or (document_querySelector doc [Simple (Class ''abstract'')]) [],
         url = u\<rparr>,
      sections = html_sections innerHTML doc,
      fullText = trimmed_text_or (document_querySelector doc [Simple (Tag ''body'')]) []\<rparr>"

section \<open>The collaborators\<close>

text \<open>
  What the service calls and does not define: \<open>axios.get(url)\<close>, which gives the body of
  the response or throws; \<open>new JSDOM(html)\<close>, which gives the document or throws; and
  \<open>innerHTML\<close>. A thrown value is kept as the string that a template literal makes of
  it.
\<close>

record collaborators =
  axios_get :: "string \<Rightarrow> string + string"
  JSDOM :: "string \<Rightarrow> string + node"
  innerHTML :: "node \<Rightarrow> string"

definition parseHtmlRfc :: "collaborators \<Rightarrow> string \<Rightarrow> string \<Rightarrow> string \<Rightarrow> string + RfcContent" where
  "parseHtmlRfc env html rfcNumber u =
     (case JSDOM env html of
        Inl thrown \<Rightarrow> Inl thrown
      | Inr doc \<Rightarrow> Inr (parseHtmlDocument (innerHTML env) doc rfcNumber u))"

section \<open>The service\<close>

text \<open>
  The state of \<open>RfcService\<close> is its cache. The requests and the console lines of the
  calls so far are kept beside it, so that what a call does can be stated.
\<close>

datatype event = Get string | ConsoleError string

record service =
  cache :: "string \<rightharpoonup> RfcContent"
  trace :: "event list"

datatype js_error = Error string

definition baseUrl :: string where
  "baseUrl = ''https://www.ietf.org/rfc''"

definition txtUrl :: "string \<Rightarrow> string" where
  "txtUrl rfcNumber = baseUrl @ ''/rfc'' @ rfcNumber @ ''.txt''"

definition htmlUrl :: "string \<Rightarrow> string" where
  "htmlUrl rfcNumber = baseUrl @ ''/rfc'' @ rfcNumber @ ''/''"

text \<open>
  The two statements of the \<open>try\<close> block before the cache is written: the request for
  the HTML variant and its parse. \<open>Inl\<close> is the value thrown into \<open>catch\<close>.
\<close>

definition html_variant :: "collaborators \<Rightarrow> string \<Rightarrow> string + RfcContent" where
  "html_variant env rfcNumber =
     (case axios_get env (htmlUrl rfcNumber) of
        Inl thrown \<Rightarrow> Inl thrown
      | Inr data \<Rightarrow> parseHtmlRfc env data rfcNumber (htmlUrl rfcNumber))"

text \<open>The same for the inner \<open>try\<close> block: the text variant.\<close>

definition txt_variant :: "collaborators \<Rightarrow> string \<Rightarrow> string + RfcContent" where
  "txt_variant env rfcNumber =
     (case axios_get env (txtUrl rfcNumber) of
        Inl thrown \<Rightarrow> Inl thrown
      | Inr data \<Rightarrow> Inr (parseTxtRfc data rfcNumber (txtUrl rfcNumber)))"

text \<open>The \<open>try\<close> block.\<close>

definition try_html :: "collaborators \<Rightarrow> string \<Rightarrow> service \<Rightarrow> (string + RfcContent) \<times> service" where
  "try_html env rfcNumber s =
     (let s1 = s\<lparr>trace := trace s @ [Get (htmlUrl rfcNumber)]\<rparr>
      in case html_variant env rfcNumber of
           Inl thrown \<Rightarrow> (Inl thrown, s1)
         | Inr rfc \<Rightarrow> (Inr rfc, s1\<lparr>cache := (cache s1)(rfcNumber \<mapsto> rfc)\<rparr>))"

text \<open>The inner \<open>try\<close> block, after the line it writes to the console.\<close>

definition try_txt :: "collaborators \<Rightarrow> string \<Rightarrow> service \<Rightarrow> (string + RfcContent) \<times> service" where
  "try_txt env rfcNumber s =
     (let s1 = s\<lparr>trace := trace s @
                 [ConsoleError (''Failed to fetch HTML format for RFC '' @ rfcNumber @ '', trying TXT format''),
                  Get (txtUrl rfcNumber)]\<rparr>
      in case txt_variant env rfcNumber of
           Inl txtError \<Rightarrow> (Inl txtError, s1)
         | Inr rfc \<Rightarrow> (Inr rfc, s1\<lparr>cache := (cache s1)(rfcNumber \<mapsto> rfc)\<rparr>))"

text \<open>
  \<open>fetchRfc\<close>: the result (\<open>Inl\<close> for the error thrown to the caller) and the state of the
  service after the call.
\<close>

definition fetchRfc :: "collaborators \<Rightarrow> string \<Rightarrow> service \<Rightarrow> (js_error + RfcContent) \<times> service" where
  "fetchRfc env rfcNumber s =
     (case cache s rfcNumber of
        Some rfc \<Rightarrow> (Inr rfc, s)
      | None \<Rightarrow>
          (case try_html env rfcNumber s of
             (Inr rfc, s1) \<Rightarrow> (Inr rfc, s1)
           | (Inl error, s1) \<Rightarrow>
               (case try_txt env rfcNumber s1 of
                  (Inr rfc, s2) \<Rightarrow> (Inr rfc, s2)
                | (Inl txtError, s2) \<Rightarrow>
                    (Inl (Error (''Failed to fetch RFC '' @ rfcNumber @ '': '' @ txtError)), s2))))"

text \<open>A sequence of calls, each with the collaborators as they answer at that time.\<close>

fun run_calls :: "(collaborators \<times> string) list \<Rightarrow> service \<Rightarrow> service" where
  "run_calls [] s = s"
| "run_calls ((env, rfcNumber) # calls) s = run_calls calls (snd (fetchRfc env rfcNumber s))"

section \<open>Example inputs\<close>

text \<open>A service that has answered no call yet.\<close>

definition empty_service :: service where
  "empty_service = \<lparr>cache = Map.empty, trace = []\<rparr>"

text \<open>Collaborators for which every request fails.\<close>

definition env_down :: collaborators where
  "env_down =
     \<lparr>axios_get = (\<lambda>u. Inl ''AxiosError: Network Error''),
      JSDOM = (\<lambda>html. Inr (Element ''html'' [] [Element ''head'' [] [], Element ''body'' [] []])),
      innerHTML = (\<lambda>n. [])\<rparr>"

text \<open>A text without a numbered heading.\<close>

definition text_plain :: string where
  "text_plain = ''Network Working Group'' @ [LF] @ ''A memo without numbered headings.''"

text \<open>The body of a text variant with one numbered section.\<close>

definition rfc_2616_text :: string where
  "rfc_2616_text = ''1. Introduction'' @ [LF] @ ''HTTP is a protocol.''"

text \<open>Collaborators that serve the text variant of RFC 2616 and nothing else.\<close>

definition env_txt_only :: collaborators where
  "env_txt_only =
     \<lparr>axios_get = (\<lambda>u. if u = txtUrl ''2616'' then Inr rfc_2616_text
                         else Inl ''AxiosError: Request failed with status code 404''),
      JSDOM = (\<lambda>html. Inr (Element ''html'' [] [Element ''head'' [] [], Element ''body'' [] []])),
      innerHTML = (\<lambda>n. [])\<rparr>"

text \<open>
  Collaborators that serve both variants of RFC 2616, with a tree library that throws on
  the HTML body.
\<close>

definition env_bad_html :: collaborators where
  "env_bad_html =
     \<lparr>axios_get = (\<lambda>u. if u = txtUrl ''2616'' then Inr rfc_2616_text else Inr ''<html>''),
      JSDOM = (\<lambda>html. Inl ''TypeError: malformed tree''),
      innerHTML = (\<lambda>n. [])\<rparr>"

text \<open>
  A document whose only section element holds an \<open>h3\<close> heading and, after it, an \<open>h2\<close>
  heading; and that section element as an element of the document, with its ancestors.
\<close>

definition doc_h3_then_h2 :: node where
  "doc_h3_then_h2 =
     Element ''html'' []
       [Element ''head'' [] [],
        Element ''body'' []
          [Element ''section'' []
             [Element ''h3'' [] [Text ''Scope''],
              Element ''h2'' [] [Text ''Overview''],
              Element ''p'' [] [Text ''Body text.'']]]]"

definition section_h3_then_h2 :: element where
  "section_h3_then_h2 = hd (document_querySelectorAll doc_h3_then_h2 [Simple (Tag ''section'')])"

text \<open>
  A document with a section and a subsection, each with a heading, and a section without
  one.
\<close>

definition doc_nested :: node where
  "doc_nested =
     Element ''html'' []
       [Element ''head'' [] [],
        Element ''body'' []
          [Element ''h1'' [] [Text ''Hypertext Transfer Protocol''],
           Element ''section'' []
             [Element ''h2'' [] [Text ''1. Introduction''],
              Element ''section'' []
                [Element ''h3'' [] [Text ''1.1. Purpose''],
                 Element ''p'' [] [Text ''HTTP is a protocol.'']]],
           Element ''section'' [] [Element ''p'' [] [Text ''No heading here.'']]]]"

text \<open>
  The document of a page whose body is empty, and collaborators that serve this page.
\<close>

definition doc_empty_body :: node where
  "doc_empty_body = Element ''html'' [] [Element ''head'' [] [], Element ''body'' [] []]"

definition env_empty_body :: collaborators where
  "env_empty_body =
     \<lparr>axios_get = (\<lambda>u. Inr ''<html><head></head><body></body></html>''),
      JSDOM = (\<lambda>html. Inr doc_empty_body),
      innerHTML = (\<lambda>n. [])\<rparr>"

text \<open>
  A text in which the word \<open>abstract\<close> ends a sentence line, and the text of the example
  of the specification.
\<close>

definition text_abstract_in_sentence :: string where
  "text_abstract_in_sentence = ''See the abstract'' @ [LF] @ ''of RFC 822.'' @ [LF, LF]"

definition text_abstract_example :: string where
  "text_abstract_example =
     ''Abstract'' @ [LF, LF] @ ''This document specifies...'' @ [LF, LF] @ ''Status of this Memo...''"

section \<open>The retrieval orchestrator\<close>

lemma html_variant_Inl_iff:
  "html_variant env n = Inl e \<longleftrightarrow>
     (axios_get env (htmlUrl n) = Inl e \<or>
      (\<exists>html. axios_get env (htmlUrl n) = Inr html \<and> JSDOM env html = Inl e))"
  by (auto simp: html_variant_def parseHtmlRfc_def split: sum.splits)

lemma txt_variant_Inl_iff:
  "txt_variant env n = Inl c \<longleftrightarrow> axios_get env (txtUrl n) = Inl c"
  by (auto simp: txt_variant_def split: sum.splits)

lemma txt_variant_Inr_iff:
  "txt_variant env n = Inr d \<longleftrightarrow>
     (\<exists>data. axios_get env (txtUrl n) = Inr data \<and> d = parseTxtRfc data n (txtUrl n))"
  by (auto simp: txt_variant_def split: sum.splits)

text \<open>A call for an identifier that is not in the cache, by the outcome of the variants.\<close>

lemma fetchRfc_miss:
  "cache s n = None \<Longrightarrow>
   fetchRfc env n s =
     (case html_variant env n of
        Inr rfc \<Rightarrow>
          (Inr rfc, s\<lparr>trace := trace s @ [Get (htmlUrl n)], cache := (cache s)(n \<mapsto> rfc)\<rparr>)
      | Inl thrown \<Rightarrow>
          (case txt_variant env n of
             Inr rfc \<Rightarrow>
               (Inr rfc,
                s\<lparr>trace := trace s @
                     [Get (htmlUrl n),
                      ConsoleError (''Failed to fetch HTML format for RFC '' @ n @ '', trying TXT format''),
                      Get (txtUrl n)],
                   cache := (cache s)(n \<mapsto> rfc)\<rparr>)
           | Inl txtError \<Rightarrow>
               (Inl (Error (''Failed to fetch RFC '' @ n @ '': '' @ txtError)),
                s\<lparr>trace := trace s @
                     [Get (htmlUrl n),
                      ConsoleError (''Failed to fetch HTML format for RFC '' @ n @ '', trying TXT format''),
                      Get (txtUrl n)]\<rparr>)))"
  by (simp add: fetchRfc_def try_html_def try_txt_def Let_def split: sum.splits)

lemma fetchRfc_hit: "cache s n = Some rfc \<Longrightarrow> fetchRfc env n s = (Inr rfc, s)"
  by (simp add: fetchRfc_def)



lemma txtUrl_neq_htmlUrl: "txtUrl n \<noteq> htmlUrl n"
  by (simp add: txtUrl_def htmlUrl_def)



text \<open>An entry of the cache stays as it is, whatever is called later.\<close>

lemma fetchRfc_keeps_entries:
  "cache s n = Some d \<Longrightarrow> cache (snd (fetchRfc env' n' s)) n = Some d"
proof (cases "cache s n'")
  case (Some rfc)
  assume "cache s n = Some d"
  then show ?thesis using Some by (simp add: fetchRfc_hit)
next
  case None
  assume c: "cache s n = Some d"
  then have "n' \<noteq> n" using None by auto
  then show ?thesis using None c
    by (simp add: fetchRfc_miss split: sum.splits)
qed

lemma run_calls_keeps_entries:
  "cache s n = Some d \<Longrightarrow> cache (run_calls calls s) n = Some d"
proof (induction calls arbitrary: s)
  case Nil then show ?case by simp
next
  case (Cons c calls)
  obtain env' n' where c: "c = (env', n')" by (cases c)
  show ?case using Cons.prems unfolding c
    by (simp add: Cons.IH fetchRfc_keeps_entries)
qed

lemma fetchRfc_success_cached:
  "fetchRfc env n s = (Inr rfc, s1) \<Longrightarrow> cache s1 n = Some rfc"
  by (cases "cache s n") (auto simp: fetchRfc_miss fetchRfc_hit split: sum.splits)

lemma fetchRfc_failure_state:
  "fetchRfc env n s = (Inl err, s1) \<Longrightarrow>
     cache s n = None \<and>
     s1 = s\<lparr>trace := trace s @
              [Get (htmlUrl n),
               ConsoleError (''Failed to fetch HTML format for RFC '' @ n @ '', trying TXT format''),
               Get (txtUrl n)]\<rparr>"
  by (cases "cache s n") (auto simp: fetchRfc_miss fetchRfc_hit split: sum.splits)



section \<open>The text pipeline\<close>

lemma foldl_scan_no_header:
  "\<forall>l \<in> set ls. sectionMatch l = None \<Longrightarrow> currentSection st = None \<Longrightarrow>
     foldl scan_line st ls = st"
  by (induction ls arbitrary: st) (simp_all add: scan_line_def)

text \<open>
  Claim C7. A text none of whose lines matches the pattern of a numbered heading is
  parsed to a document with no section and with the text itself, unchanged, as
  \<open>fullText\<close>.
\<close>

theorem no_numbered_heading_no_sections:
  assumes "\<forall>line \<in> set (split_nl text). sectionMatch line = None"
  shows "sections (parseTxtRfc text rfcNumber u) = [] \<and>
         fullText (parseTxtRfc text rfcNumber u) = text"
proof -
  have "foldl scan_line scan_init (split_nl text) = scan_init"
    using assms by (rule foldl_scan_no_header) (simp add: scan_init_def)
  then show ?thesis
    by (simp add: parseTxtRfc_def txt_sections_def flush_def scan_init_def)
qed

theorem no_numbered_heading_no_sections_witness:
  "map sectionMatch (split_nl text_plain) = [None, None] \<and>
   sections (parseTxtRfc text_plain ''2616'' (txtUrl ''2616'')) = [] \<and>
   fullText (parseTxtRfc text_plain ''2616'' (txtUrl ''2616'')) = text_plain"
proof -
  have m: "map sectionMatch (split_nl text_plain) = [None, None]"
    by code_simp
  then have "\<forall>line \<in> set (split_nl text_plain). sectionMatch line = None"
    by (metis (no_types, lifting) empty_iff empty_set image_eqI insert_iff list.set_map list.simps(15))
  from no_numbered_heading_no_sections [OF this] m show ?thesis
    by simp
qed

lemma scan_line_header:
  "sectionMatch l = Some g \<Longrightarrow>
     scan_line st l = \<lparr>st_sections = flush st, currentSection = Some (trim g), currentContent = []\<rparr>"
  by (simp add: scan_line_def)

lemma flush_prefix:
  "flush (st\<lparr>st_sections := A @ st_sections st\<rparr>) = A @ flush st"
  by (simp add: flush_def split: option.splits)

lemma scan_line_prefix:
  "scan_line (st\<lparr>st_sections := A @ st_sections st\<rparr>) l =
     (scan_line st l)\<lparr>st_sections := A @ st_sections (scan_line st l)\<rparr>"
  by (simp add: scan_line_def flush_prefix split: option.splits)

lemma foldl_scan_prefix:
  "foldl scan_line (st\<lparr>st_sections := A @ st_sections st\<rparr>) ls =
     (foldl scan_line st ls)\<lparr>st_sections := A @ st_sections (foldl scan_line st ls)\<rparr>"
  by (induction ls arbitrary: st) (simp_all add: scan_line_prefix)

lemma scan_header_from:
  assumes "sectionMatch h = Some g"
  shows "scan_line st h = (scan_line scan_init h)\<lparr>st_sections := flush st @ st_sections (scan_line scan_init h)\<rparr>"
  using assms by (simp add: scan_line_header scan_init_def flush_def)

text \<open>The sections of a text whose second part starts with a header line.\<close>

lemma txt_sections_append:
  assumes "post = [] \<or> sectionMatch (hd post) \<noteq> None"
  shows "txt_sections (pre @ post) = txt_sections pre @ txt_sections post"
proof (cases post)
  case Nil
  then show ?thesis by (simp add: txt_sections_def flush_def scan_init_def)
next
  case (Cons h rest)
  then obtain g where g: "sectionMatch h = Some g" using assms by auto
  define st where "st = foldl scan_line scan_init pre"
  have "foldl scan_line scan_init (pre @ post) = foldl scan_line (scan_line st h) rest"
    by (simp add: Cons st_def)
  also have "\<dots> = (foldl scan_line (scan_line scan_init h) rest)
       \<lparr>st_sections := flush st @ st_sections (foldl scan_line (scan_line scan_init h) rest)\<rparr>"
    by (subst scan_header_from [OF g]) (rule foldl_scan_prefix)
  finally show ?thesis
    by (simp add: txt_sections_def flush_prefix Cons st_def)
qed

lemma foldl_scan_body:
  "\<forall>l \<in> set body. sectionMatch l = None \<Longrightarrow> currentSection st = Some t \<Longrightarrow>
     foldl scan_line st body = st\<lparr>currentContent := currentContent st @ body\<rparr>"
  by (induction body arbitrary: st) (simp_all add: scan_line_def)

lemma txt_sections_header_body:
  assumes "sectionMatch h = Some g" and "\<forall>l \<in> set body. sectionMatch l = None"
  shows "txt_sections (h # body) =
           (if body = [] then []
            else [\<lparr>sec_title = trim g, sec_content = join_nl body, subsections = None\<rparr>])"
proof -
  have "foldl scan_line scan_init (h # body) =
          \<lparr>st_sections = [], currentSection = Some (trim g), currentContent = body\<rparr>"
    using assms by (simp add: scan_line_header foldl_scan_body [where t = "trim g"] flush_def scan_init_def)
  then show ?thesis by (simp add: txt_sections_def flush_def)
qed

lemma split_nl_line: "LF \<notin> set l \<Longrightarrow> split_nl l = [l]"
  by (induction l) auto

lemma split_nl_append_LF:
  "LF \<notin> set l \<Longrightarrow> split_nl (l @ LF # s) = l # split_nl s"
  by (induction l) (auto split: list.splits)

lemma split_nl_join_nl:
  "ls \<noteq> [] \<Longrightarrow> \<forall>l \<in> set ls. LF \<notin> set l \<Longrightarrow> split_nl (join_nl ls) = ls"
proof (induction ls rule: join_nl.induct)
  case 1 then show ?case by simp
next
  case (2 l) then show ?case by (simp add: split_nl_line)
next
  case (3 l l' ls) then show ?case by (simp add: split_nl_append_LF)
qed

lemma sectionMatch_Nil: "sectionMatch [] = None"
  by code_simp

lemma txt_sections_blank: "txt_sections [[]] = txt_sections []"
  by (simp add: txt_sections_def scan_line_def sectionMatch_Nil scan_init_def)

lemma txt_sections_split_join:
  assumes "\<forall>l \<in> set ls. LF \<notin> set l"
  shows "txt_sections (split_nl (join_nl ls)) = txt_sections ls"
proof (cases ls)
  case Nil then show ?thesis by (simp add: txt_sections_blank)
next
  case (Cons a list)
  then show ?thesis using assms split_nl_join_nl[of ls] by simp
qed

lemma sections_parseTxtRfc_join:
  "\<forall>l \<in> set ls. LF \<notin> set l \<Longrightarrow>
     sections (parseTxtRfc (join_nl ls) rfcNumber u) = txt_sections ls"
  by (simp add: parseTxtRfc_def txt_sections_split_join)

lemma example_sections:
  "txt_sections (split_nl (''1. Intro'' @ [LF] @ ''2. Background'')) = [] \<and>
   txt_sections (split_nl (''1. Intro'' @ [LF] @ ''2. Background'' @ [LF] @ ''It began.'')) =
     [\<lparr>sec_title = ''Background'', sec_content = ''It began.'', subsections = None\<rparr>]"
  by code_simp

text \<open>
  Claim C5. A header line, its body lines (lines that are not header lines) and then the
  end of the input or the next header line contribute exactly one section when there is
  at least one body line, and none when there is no body line: a numbered header that has
  gathered no line by the next header, or by the end of the input, is dropped. The
  sections before and after are not affected. So the lines \<open>1. Intro\<close> and
  \<open>2. Background\<close> give no section titled \<open>Intro\<close>, and \<open>Background\<close> is a section once
  a line follows it.
\<close>

theorem header_without_body_dropped:
  assumes "\<forall>l \<in> set (pre @ h # body @ post). LF \<notin> set l"
    and "sectionMatch h = Some g"
    and "\<forall>l \<in> set body. sectionMatch l = None"
    and "post = [] \<or> sectionMatch (hd post) \<noteq> None"
  shows "sections (parseTxtRfc (join_nl (pre @ h # body @ post)) rfcNumber u) =
           sections (parseTxtRfc (join_nl pre) rfcNumber u) @
           (if body = [] then []
            else [\<lparr>sec_title = trim g, sec_content = join_nl body, subsections = None\<rparr>]) @
           sections (parseTxtRfc (join_nl post) rfcNumber u) \<and>
         sections (parseTxtRfc (''1. Intro'' @ [LF] @ ''2. Background'') rfcNumber u) = [] \<and>
         sections (parseTxtRfc (''1. Intro'' @ [LF] @ ''2. Background'' @ [LF] @ ''It began.'') rfcNumber u) =
           [\<lparr>sec_title = ''Background'', sec_content = ''It began.'', subsections = None\<rparr>]"
proof -
  have 1: "txt_sections (pre @ (h # body) @ post) = txt_sections pre @ txt_sections ((h # body) @ post)"
    by (rule txt_sections_append) (simp add: assms(2))
  have 2: "txt_sections ((h # body) @ post) = txt_sections (h # body) @ txt_sections post"
    by (rule txt_sections_append) (rule assms(4))
  have "txt_sections (pre @ h # body @ post) =
          txt_sections pre @
          (if body = [] then []
           else [\<lparr>sec_title = trim g, sec_content = join_nl body, subsections = None\<rparr>]) @
          txt_sections post"
    using 1 2 txt_sections_header_body [OF assms(2,3)] by simp
  moreover have "\<forall>l \<in> set pre. LF \<notin> set l" "\<forall>l \<in> set post. LF \<notin> set l"
    using assms(1) by auto
  ultimately show ?thesis
    using assms(1) example_sections
    by (simp only: sections_parseTxtRfc_join) (simp add: parseTxtRfc_def)
qed

theorem header_without_body_dropped_witness:
  "sectionMatch ''1. Intro'' = Some ''Intro'' \<and>
   sectionMatch ''2. Background'' = Some ''Background'' \<and>
   map sectionMatch [''It began.'', ''''] = [None, None] \<and>
   sections (parseTxtRfc (join_nl [''Preface'', ''1. Intro'', ''2. Background'', ''It began.'', ''''])
       ''2616'' (txtUrl ''2616'')) =
     [\<lparr>sec_title = ''Background'', sec_content = ''It began.'' @ [LF], subsections = None\<rparr>]"
proof -
  have h1: "sectionMatch ''1. Intro'' = Some ''Intro''" by code_simp
  have h2: "sectionMatch ''2. Background'' = Some ''Background''" by code_simp
  have b: "map sectionMatch [''It began.'', ''''] = [None, None]" by code_simp
  then have b': "\<forall>l \<in> set [''It began.'', '''']. sectionMatch l = None" by simp
  have t1: "trim ''Intro'' = ''Intro''" and t2: "trim ''Background'' = ''Background''"
    by code_simp+
  have p: "sections (parseTxtRfc ''Preface'' ''2616'' (txtUrl ''2616'')) = []"
    by code_simp
  have e: "sections (parseTxtRfc [] ''2616'' (txtUrl ''2616'')) = []"
    by code_simp
  have lf1: "\<forall>l \<in> set ([''Preface''] @ ''1. Intro'' # [] @ [''2. Background'', ''It began.'', '''']). LF \<notin> set l"
    by (simp add: LF_def)
  have lf2: "\<forall>l \<in> set ([] @ ''2. Background'' # [''It began.'', ''''] @ []). LF \<notin> set l"
    by (simp add: LF_def)
  have n1: "[''2. Background'', ''It began.'', ''''] = [] \<or>
      sectionMatch (hd [''2. Background'', ''It began.'', '''']) \<noteq> None"
    by (simp add: h2)
  have n2: "([]::string list) = [] \<or> sectionMatch (hd []) \<noteq> None" by simp
  have a: "\<forall>l \<in> set ([]::string list). sectionMatch l = None" by simp
  from header_without_body_dropped [OF lf1 h1 a n1, of "''2616''" "txtUrl ''2616''"]
  have 1: "sections (parseTxtRfc (join_nl [''Preface'', ''1. Intro'', ''2. Background'', ''It began.'', ''''])
       ''2616'' (txtUrl ''2616'')) =
     sections (parseTxtRfc (join_nl [''2. Background'', ''It began.'', '''']) ''2616'' (txtUrl ''2616''))"
    by (simp add: p)
  from header_without_body_dropped [OF lf2 h2 b' n2, of "''2616''" "txtUrl ''2616''"]
  have 2: "sections (parseTxtRfc (join_nl [''2. Background'', ''It began.'', '''']) ''2616'' (txtUrl ''2616'')) =
     [\<lparr>sec_title = ''Background'', sec_content = ''It began.'' @ [LF], subsections = None\<rparr>]"
    using e by (simp add: t2)
  show ?thesis using 1 2 h1 h2 b by simp
qed

text \<open>
  Claim C3 says that no section has an empty title, in either pipeline. The text
  pipeline breaks it: the header line \<open>1.\<close> followed by two spaces matches the pattern
  with a single space as group 1, its trimmed title is empty, and the loop tests only
  that there is a current section; with one line of content below the header, the section
  is pushed with the empty title.
\<close>

theorem parseTxtRfc_blank_title:
  "sections (parseTxtRfc (''1.  '' @ [LF] @ ''Some text.'') ''2616'' (txtUrl ''2616'')) =
     [\<lparr>sec_title = [], sec_content = ''Some text.'', subsections = None\<rparr>]"
  by code_simp

section \<open>The HTML pipeline\<close>

lemma trimmed_text_or_Nil:
  "trimmed_text_or x [] = (case x of None \<Rightarrow> [] | Some el \<Rightarrow> trim (textContent (snd el)))"
  by (simp add: trimmed_text_or_def split: option.splits)

lemma first_filter: "first (filter P xs) = find P xs"
  by (induction xs) (simp_all add: first_def)

lemma querySelector_find:
  "querySelector el sels = find (matches_any sels) (descendants el)"
  by (simp add: querySelector_def querySelectorAll_def select_def first_filter)

lemma find_first_match:
  "\<forall>d \<in> set pre. \<not> P d \<Longrightarrow> P h \<Longrightarrow> find P (pre @ h # post) = Some h"
  by (induction pre) simp_all

text \<open>\<open>querySelector\<close> gives the first descendant, in document order, that matches.\<close>

lemma querySelector_first:
  assumes "descendants el = pre @ h # post"
    and "\<forall>d \<in> set pre. \<not> matches_any sels d"
    and "matches_any sels h"
  shows "querySelector el sels = Some h"
  unfolding querySelector_find assms(1) using assms(2,3) by (rule find_first_match)

lemma html_section_titles: "sec \<in> set (html_section inner el) \<Longrightarrow> sec_title sec \<noteq> []"
  by (auto simp: html_section_def Let_def split: if_splits)

lemma html_subsection_titles: "sub \<in> set (html_subsections inner el) \<Longrightarrow> sub_title sub \<noteq> []"
  by (auto simp: html_subsections_def html_subsection_def Let_def split: if_splits)

lemma html_section_subsections:
  "sec \<in> set (html_section inner el) \<Longrightarrow> subsections sec = Some subs \<Longrightarrow>
     subs = html_subsections inner el"
  by (auto simp: html_section_def Let_def split: if_splits)

text \<open>
  In the HTML pipeline every section of the document, and every subsection of a section,
  has a title that is not empty.
\<close>

theorem html_titles_not_empty:
  "sec \<in> set (sections (parseHtmlDocument inner doc rfcNumber u)) \<Longrightarrow>
     sec_title sec \<noteq> [] \<and>
     (\<forall>subs. subsections sec = Some subs \<longrightarrow> (\<forall>sub \<in> set subs. sub_title sub \<noteq> []))"
  by (auto simp: parseHtmlDocument_def html_sections_def
           dest: html_section_titles html_section_subsections html_subsection_titles)

theorem html_titles_not_empty_witness:
  "sections (parseHtmlDocument (\<lambda>n. []) doc_nested ''2616'' (htmlUrl ''2616'')) =
     [\<lparr>sec_title = ''1. Introduction'', sec_content = [],
        subsections = Some [\<lparr>sub_title = ''1.1. Purpose'', sub_content = []\<rparr>]\<rparr>,
      \<lparr>sec_title = ''1.1. Purpose'', sec_content = [], subsections = None\<rparr>] \<and>
   sec_title \<lparr>sec_title = ''1. Introduction'', sec_content = [],
        subsections = Some [\<lparr>sub_title = ''1.1. Purpose'', sub_content = []\<rparr>]\<rparr> \<noteq> []"
proof -
  have s: "sections (parseHtmlDocument (\<lambda>n. []) doc_nested ''2616'' (htmlUrl ''2616'')) =
     [\<lparr>sec_title = ''1. Introduction'', sec_content = [],
        subsections = Some [\<lparr>sub_title = ''1.1. Purpose'', sub_content = []\<rparr>]\<rparr>,
      \<lparr>sec_title = ''1.1. Purpose'', sec_content = [], subsections = None\<rparr>]"
    by code_simp
  then have "\<lparr>sec_title = ''1. Introduction'', sec_content = [],
        subsections = Some [\<lparr>sub_title = ''1.1. Purpose'', sub_content = []\<rparr>]\<rparr>
      \<in> set (sections (parseHtmlDocument (\<lambda>n. []) doc_nested ''2616'' (htmlUrl ''2616'')))"
    by simp
  from html_titles_not_empty [OF this] s show ?thesis by blast
qed




lemma dropWhile_all_Nil: "\<forall>x \<in> set (dropWhile P xs). P x \<Longrightarrow> dropWhile P xs = []"
  by (metis hd_dropWhile hd_in_set)

lemma trim_Nil_iff: "trim s = [] \<longleftrightarrow> (\<forall>c \<in> set s. is_space c)"
proof
  assume "trim s = []"
  then have "\<forall>x \<in> set (dropWhile is_space s). is_space x"
    by (simp add: trim_def dropWhile_eq_Nil_conv)
  then have "dropWhile is_space s = []" by (rule dropWhile_all_Nil)
  then show "\<forall>c \<in> set s. is_space c" by (simp add: dropWhile_eq_Nil_conv)
next
  assume "\<forall>c \<in> set s. is_space c"
  then have d: "dropWhile is_space s = []" by (simp add: dropWhile_eq_Nil_conv)
  show "trim s = []" unfolding trim_def d by simp
qed

text \<open>
  Claim C8, as the claim states it, fails in the HTML pipeline: a page that is not empty
  and whose body holds no text gives the empty \<open>fullText\<close>.
\<close>

theorem html_fullText_empty:
  "''<html><head></head><body></body></html>'' \<noteq> [] \<and>
   parseHtmlRfc env_empty_body ''<html><head></head><body></body></html>'' ''2616'' (htmlUrl ''2616'') =
     Inr (parseHtmlDocument (\<lambda>n. []) doc_empty_body ''2616'' (htmlUrl ''2616'')) \<and>
   fullText (parseHtmlDocument (\<lambda>n. []) doc_empty_body ''2616'' (htmlUrl ''2616'')) = []"
proof -
  have "fullText (parseHtmlDocument (\<lambda>n. []) doc_empty_body ''2616'' (htmlUrl ''2616'')) = []"
    by code_simp
  then show ?thesis by (simp add: parseHtmlRfc_def env_empty_body_def)
qed

text \<open>
  Claim C8, amended. In the text pipeline \<open>fullText\<close> is the input, so it is not empty
  when the input is not. In the HTML pipeline \<open>fullText\<close> is the trimmed text of the
  first \<open>body\<close> element of the document: it is not empty exactly when there is such an
  element and its text has a character that is not white space. In both pipelines
  \<open>fullText\<close> does not depend on the sections that were found.
\<close>

theorem fullText_of_both_pipelines:
  "fullText (parseTxtRfc text rfcNumber u) = text \<and>
   (text \<noteq> [] \<longrightarrow> fullText (parseTxtRfc text rfcNumber u) \<noteq> []) \<and>
   fullText (parseHtmlDocument inner doc rfcNumber' u') =
     (case document_querySelector doc [Simple (Tag ''body'')] of
        None \<Rightarrow> []
      | Some body \<Rightarrow> trim (textContent (snd body))) \<and>
   (fullText (parseHtmlDocument inner doc rfcNumber' u') \<noteq> [] \<longleftrightarrow>
      (\<exists>body. document_querySelector doc [Simple (Tag ''body'')] = Some body \<and>
         (\<exists>c \<in> set (textContent (snd body)). \<not> is_space c)))"
  by (auto simp: parseTxtRfc_def parseHtmlDocument_def trimmed_text_or_Nil trim_Nil_iff
           split: option.splits)

theorem fullText_of_both_pipelines_witness:
  "sections (parseTxtRfc text_plain ''2616'' (txtUrl ''2616'')) = [] \<and>
   fullText (parseTxtRfc text_plain ''2616'' (txtUrl ''2616'')) = text_plain \<and>
   fullText (parseTxtRfc text_plain ''2616'' (txtUrl ''2616'')) \<noteq> [] \<and>
   fullText (parseHtmlDocument (\<lambda>n. []) doc_h3_then_h2 ''2616'' (htmlUrl ''2616'')) =
     ''ScopeOverviewBody text.''"
proof -
  have n: "text_plain \<noteq> []" by (simp add: text_plain_def)
  have s: "sections (parseTxtRfc text_plain ''2616'' (txtUrl ''2616'')) = []" by code_simp
  have b: "(case document_querySelector doc_h3_then_h2 [Simple (Tag ''body'')] of
        None \<Rightarrow> []
      | Some body \<Rightarrow> trim (textContent (snd body))) = ''ScopeOverviewBody text.''"
    by code_simp
  from fullText_of_both_pipelines [of text_plain "''2616''" "txtUrl ''2616''" "\<lambda>n. []" doc_h3_then_h2
      "''2616''" "htmlUrl ''2616''"] n s b
  show ?thesis by simp
qed

section \<open>Determinism\<close>



section \<open>Further properties of the document\<close>

text \<open>
  In both pipelines the metadata of the document carries the identifier and the URL that
  the parser was called with.
\<close>

theorem metadata_number_and_url:
  "number (metadata (parseTxtRfc text rfcNumber u)) = rfcNumber \<and>
   url (metadata (parseTxtRfc text rfcNumber u)) = u \<and>
   number (metadata (parseHtmlDocument inner doc rfcNumber u)) = rfcNumber \<and>
   url (metadata (parseHtmlDocument inner doc rfcNumber u)) = u"
  by (simp add: parseTxtRfc_def parseHtmlDocument_def)

lemma flush_no_subsections:
  "\<forall>sec \<in> set (st_sections st). subsections sec = None \<Longrightarrow>
     \<forall>sec \<in> set (flush st). subsections sec = None"
  by (auto simp: flush_def split: option.splits if_splits)

lemma scan_line_no_subsections:
  "\<forall>sec \<in> set (st_sections st). subsections sec = None \<Longrightarrow>
     \<forall>sec \<in> set (st_sections (scan_line st line)). subsections sec = None"
  using flush_no_subsections [of st]
  by (auto simp: scan_line_def split: option.splits)

lemma foldl_scan_no_subsections:
  "\<forall>sec \<in> set (st_sections st). subsections sec = None \<Longrightarrow>
     \<forall>sec \<in> set (st_sections (foldl scan_line st ls)). subsections sec = None"
proof (induction ls arbitrary: st)
  case Nil
  then show ?case by simp
next
  case (Cons a ls)
  have "\<forall>sec \<in> set (st_sections (scan_line st a)). subsections sec = None"
    using Cons.prems by (rule scan_line_no_subsections)
  then show ?case using Cons.IH [of "scan_line st a"] by simp
qed

text \<open>The text pipeline gives no section a list of subsections.\<close>

theorem txt_no_subsections:
  "sec \<in> set (sections (parseTxtRfc text rfcNumber u)) \<Longrightarrow> subsections sec = None"
proof -
  have "\<forall>sec \<in> set (st_sections (foldl scan_line scan_init (split_nl text))). subsections sec = None"
    by (rule foldl_scan_no_subsections) (simp add: scan_init_def)
  then have "\<forall>sec \<in> set (flush (foldl scan_line scan_init (split_nl text))). subsections sec = None"
    by (rule flush_no_subsections)
  then show "sec \<in> set (sections (parseTxtRfc text rfcNumber u)) \<Longrightarrow> subsections sec = None"
    by (simp add: parseTxtRfc_def txt_sections_def)
qed

theorem txt_no_subsections_witness:
  "sections (parseTxtRfc rfc_2616_text ''2616'' (txtUrl ''2616'')) =
     [\<lparr>sec_title = ''Introduction'', sec_content = ''HTTP is a protocol.'', subsections = None\<rparr>] \<and>
   subsections \<lparr>sec_title = ''Introduction'', sec_content = ''HTTP is a protocol.'', subsections = None\<rparr> =
     None"
proof -
  have s: "sections (parseTxtRfc rfc_2616_text ''2616'' (txtUrl ''2616'')) =
     [\<lparr>sec_title = ''Introduction'', sec_content = ''HTTP is a protocol.'', subsections = None\<rparr>]"
    by code_simp
  then have "\<lparr>sec_title = ''Introduction'', sec_content = ''HTTP is a protocol.'', subsections = None\<rparr>
      \<in> set (sections (parseTxtRfc rfc_2616_text ''2616'' (txtUrl ''2616'')))"
    by simp
  from txt_no_subsections [OF this] s show ?thesis by blast
qed

text \<open>
  When the identifier is not cached and the HTML variant is served and parsed,
  \<open>fetchRfc\<close> returns the document of the HTML pipeline with the URL of the HTML variant,
  stores it in the cache and does not request the text variant.
\<close>

theorem fetchRfc_html_first:
  assumes "cache s n = None"
    and "axios_get env (htmlUrl n) = Inr html"
    and "JSDOM env html = Inr doc"
  shows "fetchRfc env n s =
           (Inr (parseHtmlDocument (innerHTML env) doc n (htmlUrl n)),
            s\<lparr>trace := trace s @ [Get (htmlUrl n)],
               cache := (cache s)(n \<mapsto> parseHtmlDocument (innerHTML env) doc n (htmlUrl n))\<rparr>)"
  using assms by (simp add: fetchRfc_miss html_variant_def parseHtmlRfc_def)

theorem fetchRfc_html_first_witness:
  "fetchRfc env_empty_body ''2616'' empty_service =
     (Inr (parseHtmlDocument (\<lambda>n. []) doc_empty_body ''2616'' (htmlUrl ''2616'')),
      \<lparr>cache = [''2616'' \<mapsto> parseHtmlDocument (\<lambda>n. []) doc_empty_body ''2616'' (htmlUrl ''2616'')],
       trace = [Get (htmlUrl ''2616'')]\<rparr>)"
proof -
  have a: "cache empty_service ''2616'' = None" by (simp add: empty_service_def)
  have b: "axios_get env_empty_body (htmlUrl ''2616'') = Inr ''<html><head></head><body></body></html>''"
    by (simp add: env_empty_body_def)
  have c: "JSDOM env_empty_body ''<html><head></head><body></body></html>'' = Inr doc_empty_body"
    by (simp add: env_empty_body_def)
  from fetchRfc_html_first [OF a b c] show ?thesis
    by (simp add: empty_service_def env_empty_body_def)
qed

section \<open>The matcher on inputs of a given shape\<close>

lemma is_space_LF: "is_space LF" and is_space_CR: "is_space CR" and LF_neq_CR: "LF \<noteq> CR"
  by (simp_all add: is_space_def LF_def CR_def)

lemma not_space_not_nl: "\<not> is_space x \<Longrightarrow> x \<noteq> LF \<and> x \<noteq> CR"
  using is_space_LF is_space_CR by auto

text \<open>The equations of the matcher, applied to a continuation and a state.\<close>

lemma rmatch_Atom_Nil: "rmatch (Atom p) s k ([], c) = None"
  by simp

lemma rmatch_Atom_Cons: "rmatch (Atom p) s k (x # xs, c) = (if p x then k (xs, c) else None)"
  by simp

lemma rmatch_Eps: "rmatch Eps s k = k"
  by simp

lemma rmatch_Seq: "rmatch (Seq a b) s k = rmatch a s (rmatch b s k)"
  by simp

lemma rmatch_Alt:
  "rmatch (Alt a b) s k st = (case rmatch a s k st of Some r \<Rightarrow> Some r | None \<Rightarrow> rmatch b s k st)"
  by simp

lemma rmatch_Group:
  "rmatch (Group a) s k (xs, c) = rmatch a s (\<lambda>st'. k (fst st', Some (xs, fst st'))) (xs, c)"
  by simp

lemma rmatch_Star: "rmatch (Star a) s = star_greedy (rmatch a s)"
  by simp

lemma rmatch_Lazy: "rmatch (Lazy a) s = star_lazy (rmatch a s)"
  by simp

declare rmatch.simps [simp del]

lemma star_greedy_atom_Nil:
  "star_greedy (rmatch (Atom p) s) k ([], c) = k ([], c)"
  by (subst star_greedy.simps) (simp add: rmatch_Atom_Nil)

lemma star_greedy_atom_Cons:
  "star_greedy (rmatch (Atom p) s) k (x # xs, c) =
     (if p x
      then (case star_greedy (rmatch (Atom p) s) k (xs, c) of
              Some r \<Rightarrow> Some r
            | None \<Rightarrow> k (x # xs, c))
      else k (x # xs, c))"
  by (subst star_greedy.simps) (simp add: rmatch_Atom_Cons)

lemma star_lazy_atom_Cons:
  "star_lazy (rmatch (Atom p) s) k (x # xs, c) =
     (case k (x # xs, c) of
        Some r \<Rightarrow> Some r
      | None \<Rightarrow> if p x then star_lazy (rmatch (Atom p) s) k (xs, c) else None)"
  by (subst star_lazy.simps) (simp add: rmatch_Atom_Cons split: option.splits)

text \<open>A greedy star that can run to the end of a run, where the continuation succeeds.\<close>

lemma star_greedy_run:
  assumes "\<forall>x \<in> set V. p x" and "X = [] \<or> \<not> p (hd X)" and "k (X, c) = Some r"
  shows "star_greedy (rmatch (Atom p) s) k (V @ X, c) = Some r"
  using assms(1)
proof (induction V)
  case Nil
  show ?case
  proof (cases X)
    case Nil then show ?thesis using assms(3) by (simp add: star_greedy_atom_Nil)
  next
    case (Cons x X')
    then show ?thesis using assms(2,3) by (simp add: star_greedy_atom_Cons)
  qed
next
  case (Cons v V)
  then show ?case by (simp add: star_greedy_atom_Cons)
qed

text \<open>A greedy star over a run, when the continuation fails wherever the star may stop.\<close>

lemma star_greedy_fails:
  assumes "\<forall>x \<in> set V. p x" and "X = [] \<or> \<not> p (hd X)"
    and "\<And>V1 V2. V = V1 @ V2 \<Longrightarrow> k (V2 @ X, c) = None"
  shows "star_greedy (rmatch (Atom p) s) k (V @ X, c) = None"
  using assms(1,3)
proof (induction V)
  case Nil
  have "k (X, c) = None" using Nil(2) [of "[]" "[]"] by simp
  then show ?case using assms(2)
    by (cases X) (simp_all add: star_greedy_atom_Nil star_greedy_atom_Cons)
next
  case (Cons v V)
  have "star_greedy (rmatch (Atom p) s) k (V @ X, c) = None"
  proof (rule Cons.IH)
    show "\<forall>x \<in> set V. p x" using Cons.prems(1) by simp
    fix V1 V2 assume "V = V1 @ V2"
    then have "v # V = (v # V1) @ V2" by simp
    then show "k (V2 @ X, c) = None" by (rule Cons.prems(2))
  qed
  moreover have "k ((v # V) @ X, c) = None" using Cons.prems(2) [of "[]" "v # V"] by simp
  ultimately show ?case by (simp add: star_greedy_atom_Cons)
qed

text \<open>
  A greedy star over a run, when the continuation gives one and the same result wherever
  it succeeds.
\<close>

lemma star_greedy_one_result:
  assumes "\<forall>x \<in> set V. p x" and "X = [] \<or> \<not> p (hd X)"
    and "\<And>V1 V2. V = V1 @ V2 \<Longrightarrow> k (V2 @ X, c) = None \<or> k (V2 @ X, c) = Some r"
  shows "star_greedy (rmatch (Atom p) s) k (V @ X, c) = None \<or>
         star_greedy (rmatch (Atom p) s) k (V @ X, c) = Some r"
  using assms(1,3)
proof (induction V)
  case Nil
  have "k (X, c) = None \<or> k (X, c) = Some r" using Nil(2) [of "[]" "[]"] by simp
  then show ?case using assms(2)
    by (cases X) (auto simp add: star_greedy_atom_Nil star_greedy_atom_Cons)
next
  case (Cons v V)
  have "star_greedy (rmatch (Atom p) s) k (V @ X, c) = None \<or>
        star_greedy (rmatch (Atom p) s) k (V @ X, c) = Some r"
  proof (rule Cons.IH)
    show "\<forall>x \<in> set V. p x" using Cons.prems(1) by simp
    fix V1 V2 assume "V = V1 @ V2"
    then have "v # V = (v # V1) @ V2" by simp
    then show "k (V2 @ X, c) = None \<or> k (V2 @ X, c) = Some r" by (rule Cons.prems(2))
  qed
  moreover have "k ((v # V) @ X, c) = None \<or> k ((v # V) @ X, c) = Some r"
    using Cons.prems(2) [of "[]" "v # V"] by simp
  ultimately show ?case by (auto simp add: star_greedy_atom_Cons)
qed

lemma star_greedy_succeeds:
  assumes "\<forall>x \<in> set V. p x" and "X = [] \<or> \<not> p (hd X)"
    and "\<And>V1 V2. V = V1 @ V2 \<Longrightarrow> k (V2 @ X, c) = None \<or> k (V2 @ X, c) = Some r"
    and "V = W1 @ W2" and "k (W2 @ X, c) = Some r"
  shows "star_greedy (rmatch (Atom p) s) k (V @ X, c) = Some r"
  using assms(1,3,4)
proof (induction V arbitrary: W1)
  case Nil
  then have "W2 = []" by simp
  then have "k (X, c) = Some r" using assms(5) by simp
  then show ?case using assms(2)
    by (cases X) (simp_all add: star_greedy_atom_Nil star_greedy_atom_Cons)
next
  case (Cons v V)
  have pV: "\<forall>x \<in> set V. p x" using Cons.prems(1) by simp
  have kV: "\<And>V1 V2. V = V1 @ V2 \<Longrightarrow> k (V2 @ X, c) = None \<or> k (V2 @ X, c) = Some r"
  proof -
    fix V1 V2 assume "V = V1 @ V2"
    then have "v # V = (v # V1) @ V2" by simp
    then show "k (V2 @ X, c) = None \<or> k (V2 @ X, c) = Some r" by (rule Cons.prems(2))
  qed
  show ?case
  proof (cases W1)
    case Nil
    then have "k ((v # V) @ X, c) = Some r" using Cons.prems(3) assms(5) by simp
    moreover have "star_greedy (rmatch (Atom p) s) k (V @ X, c) = None \<or>
        star_greedy (rmatch (Atom p) s) k (V @ X, c) = Some r"
      using pV assms(2) kV by (rule star_greedy_one_result)
    ultimately show ?thesis using Cons.prems(1) by (auto simp add: star_greedy_atom_Cons)
  next
    case (Cons w W1')
    then have "V = W1' @ W2" using Cons.prems(3) by simp
    with pV kV have "star_greedy (rmatch (Atom p) s) k (V @ X, c) = Some r"
      by (rule Cons.IH)
    then show ?thesis using Cons.prems(1) by (simp add: star_greedy_atom_Cons)
  qed
qed

text \<open>\<open>\r?\n\<close> on its inputs.\<close>

lemma rx_nl_LF: "rmatch rx_nl s k (LF # xs, c) = k (xs, c)"
  by (simp add: rx_nl_def Opt_def Chr_def rmatch_Seq rmatch_Alt rmatch_Eps rmatch_Atom_Cons
      LF_neq_CR)

lemma rx_nl_CRLF: "rmatch rx_nl s k (CR # LF # xs, c) = k (xs, c)"
  by (cases "k (xs, c)")
    (simp_all add: rx_nl_def Opt_def Chr_def rmatch_Seq rmatch_Alt rmatch_Eps rmatch_Atom_Cons
      LF_neq_CR [symmetric])

lemma rx_nl_Nil: "rmatch rx_nl s k ([], c) = None"
  by (simp add: rx_nl_def Opt_def Chr_def rmatch_Seq rmatch_Alt rmatch_Eps rmatch_Atom_Nil)

lemma rx_nl_other: "x \<noteq> LF \<Longrightarrow> x \<noteq> CR \<Longrightarrow> rmatch rx_nl s k (x # xs, c) = None"
  by (simp add: rx_nl_def Opt_def Chr_def rmatch_Seq rmatch_Alt rmatch_Eps rmatch_Atom_Cons)

lemma rx_nl_CR_Nil: "rmatch rx_nl s k ([CR], c) = None"
  by (simp add: rx_nl_def Opt_def Chr_def rmatch_Seq rmatch_Alt rmatch_Eps rmatch_Atom_Cons
      rmatch_Atom_Nil LF_neq_CR [symmetric])

lemma rx_nl_CR_other: "x \<noteq> LF \<Longrightarrow> rmatch rx_nl s k (CR # x # xs, c) = None"
  by (simp add: rx_nl_def Opt_def Chr_def rmatch_Seq rmatch_Alt rmatch_Eps rmatch_Atom_Cons
      LF_neq_CR [symmetric])

text \<open>
  On white space \<open>V\<close> followed by a visible character, \<open>\r?\n\<close> fails or continues on a
  shorter run of white space before the same rest.
\<close>

lemma rx_nl_on_space:
  assumes "\<forall>x \<in> set V. is_space x" and "X \<noteq> []" and "\<not> is_space (hd X)"
  shows "rmatch rx_nl s k (V @ X, c) = None \<or>
         (\<exists>V'. (\<forall>x \<in> set V'. is_space x) \<and> length V' < length V \<and>
            rmatch rx_nl s k (V @ X, c) = k (V' @ X, c))"
proof -
  obtain x X' where X: "X = x # X'" using assms(2) by (cases X) auto
  have x: "x \<noteq> LF" "x \<noteq> CR" using assms(3) X not_space_not_nl by auto
  show ?thesis
  proof (cases V)
    case Nil
    then show ?thesis using X x by (simp add: rx_nl_other)
  next
    case (Cons v V1)
    show ?thesis
    proof (cases "v = LF")
      case True
      have "rmatch rx_nl s k (V @ X, c) = k (V1 @ X, c)"
        using Cons True by (simp add: rx_nl_LF)
      moreover have "\<forall>x \<in> set V1. is_space x" "length V1 < length V"
        using assms(1) Cons by simp_all
      ultimately show ?thesis by blast
    next
      case False
      show ?thesis
      proof (cases "v = CR")
        case notCR: False
        then show ?thesis using Cons False by (simp add: rx_nl_other)
      next
        case True
        show ?thesis
        proof (cases V1)
          case Nil
          then show ?thesis using Cons True X x by (simp add: rx_nl_CR_other)
        next
          case (Cons w V2)
          show ?thesis
          proof (cases "w = LF")
            case False
            then show ?thesis using \<open>V = v # V1\<close> True Cons by (simp add: rx_nl_CR_other)
          next
            case wLF: True
            have "rmatch rx_nl s k (V @ X, c) = k (V2 @ X, c)"
              using \<open>V = v # V1\<close> True Cons wLF by (simp add: rx_nl_CRLF)
            moreover have "\<forall>x \<in> set V2. is_space x" "length V2 < length V"
              using assms(1) \<open>V = v # V1\<close> Cons by simp_all
            ultimately show ?thesis by blast
          qed
        qed
      qed
    qed
  qed
qed

text \<open>The blank-line boundary \<open>(?:\r?\n\r?\n|\r?\n\s*\r?\n)\<close> on its inputs.\<close>

lemma rx_blank_other: "x \<noteq> LF \<Longrightarrow> x \<noteq> CR \<Longrightarrow> rmatch rx_blank s k (x # xs, c) = None"
  by (simp add: rx_blank_def seq_def rmatch_Seq rmatch_Alt rx_nl_other)

lemma rx_blank_LF_LF: "k (R, c) = Some r \<Longrightarrow> rmatch rx_blank s k (LF # LF # R, c) = Some r"
  by (simp add: rx_blank_def rmatch_Seq rmatch_Alt rx_nl_LF)

text \<open>
  The boundary does not match at the end of a line that is followed by a line with a
  visible character.
\<close>

lemma rx_blank_before_line:
  assumes "LF \<notin> set l" and "CR \<notin> set l" and "\<exists>x \<in> set l. \<not> is_space x"
  shows "rmatch rx_blank s k (LF # l @ rest, c) = None"
proof -
  from assms(3) obtain sp x l2 where l: "l = sp @ x # l2" and x: "\<not> is_space x"
    and sp: "\<forall>y \<in> set sp. is_space y"
    using split_list_first_prop [of l "\<lambda>x. \<not> is_space x"] by auto
  have nl: "\<And>y. y \<in> set l \<Longrightarrow> y \<noteq> LF \<and> y \<noteq> CR" using assms(1,2) by auto
  have l_ne: "l \<noteq> []" using l by simp
  then obtain y l' where yl: "l = y # l'" by (cases l) auto
  have first: "rmatch rx_nl s k' (l @ rest, c') = None" for k' c'
    using yl nl [of y] by (simp add: rx_nl_other)
  have star: "star_greedy (rmatch (Atom is_space) s) k' (sp @ (x # l2 @ rest), c') = None"
    if k': "\<And>ys c''. ys \<noteq> [] \<Longrightarrow> hd ys \<noteq> LF \<Longrightarrow> hd ys \<noteq> CR \<Longrightarrow> k' (ys, c'') = None" for k' c'
  proof (rule star_greedy_fails)
    show "\<forall>y \<in> set sp. is_space y" by (rule sp)
    show "x # l2 @ rest = [] \<or> \<not> is_space (hd (x # l2 @ rest))" using x by simp
    fix V1 V2 assume "sp = V1 @ V2"
    then have "V2 @ x # l2 @ rest \<noteq> []" "hd (V2 @ x # l2 @ rest) \<in> set l"
      using l by (cases V2; simp)+
    then show "k' (V2 @ x # l2 @ rest, c') = None"
      using k' nl by blast
  qed
  have second: "star_greedy (rmatch (Atom is_space) s) (rmatch rx_nl s k') (l @ rest, c') = None" for k' c'
  proof -
    have "rmatch rx_nl s k' (ys, c'') = None" if "ys \<noteq> []" "hd ys \<noteq> LF" "hd ys \<noteq> CR" for ys c''
      using that by (cases ys) (simp_all add: rx_nl_other)
    then show ?thesis using star [of "rmatch rx_nl s k'" c'] l by simp
  qed
  show ?thesis
    by (simp add: rx_blank_def seq_def rmatch_Seq rmatch_Alt rmatch_Star rx_nl_LF first second)
qed

text \<open>
  A lazy \<open>.*?\<close> with the \<open>s\<close> flag walks over a line on which its continuation fails.
\<close>

lemma star_lazy_over_line:
  assumes "\<And>x xs. x \<noteq> LF \<Longrightarrow> x \<noteq> CR \<Longrightarrow> kg (x # xs, c) = None"
    and "LF \<notin> set l" and "CR \<notin> set l"
  shows "star_lazy (rmatch (Atom is_any) s) kg (l @ rest, c) =
         star_lazy (rmatch (Atom is_any) s) kg (rest, c)"
  using assms(2,3)
proof (induction l)
  case Nil
  then show ?case by simp
next
  case (Cons a l)
  then have "a \<noteq> LF" "a \<noteq> CR" by auto
  then have "kg (a # l @ rest, c) = None" by (rule assms(1))
  then show ?case using Cons by (simp add: star_lazy_atom_Cons is_any_def)
qed

lemma join_nl_Cons: "\<exists>t. join_nl (l # ls) = l @ t"
  by (cases ls) simp_all

text \<open>
  The lazy star followed by the blank-line boundary, on lines that each have a visible
  character, followed by an empty line: it stops at the end of the last of the lines.
\<close>

lemma star_lazy_lines:
  assumes kg: "kg = (\<lambda>st'. rmatch rx_blank s k0 (fst st', Some (X0, fst st')))"
    and k0: "k0 (R, Some (X0, LF # LF # R)) = Some r"
    and "ls \<noteq> []"
    and "\<forall>l \<in> set ls. LF \<notin> set l \<and> CR \<notin> set l \<and> (\<exists>x \<in> set l. \<not> is_space x)"
  shows "star_lazy (rmatch (Atom is_any) s) kg (join_nl ls @ LF # LF # R, c) = Some r"
  using assms(3,4)
proof (induction ls rule: join_nl.induct)
  case 1
  then show ?case by simp
next
  case (2 l)
  have other: "\<And>x xs. x \<noteq> LF \<Longrightarrow> x \<noteq> CR \<Longrightarrow> kg (x # xs, c) = None"
    by (simp add: kg rx_blank_other)
  have "rmatch rx_blank s k0 (LF # LF # R, Some (X0, LF # LF # R)) = Some r"
    using k0 by (rule rx_blank_LF_LF)
  then have "kg (LF # LF # R, c) = Some r"
    by (simp add: kg)
  then have "star_lazy (rmatch (Atom is_any) s) kg (LF # LF # R, c) = Some r"
    by (simp add: star_lazy_atom_Cons)
  moreover have "star_lazy (rmatch (Atom is_any) s) kg (l @ LF # LF # R, c) =
      star_lazy (rmatch (Atom is_any) s) kg (LF # LF # R, c)"
    using 2 by (intro star_lazy_over_line [where kg = kg and c = c] other) simp_all
  ultimately show ?case by simp
next
  case (3 l l' ls)
  have other: "\<And>x xs. x \<noteq> LF \<Longrightarrow> x \<noteq> CR \<Longrightarrow> kg (x # xs, c) = None"
    by (simp add: kg rx_blank_other)
  obtain t where t: "join_nl (l' # ls) = l' @ t" using join_nl_Cons by blast
  have l': "LF \<notin> set l'" "CR \<notin> set l'" "\<exists>x \<in> set l'. \<not> is_space x"
    using 3(3) by simp_all
  have "kg (LF # l' @ (t @ LF # LF # R), c) = None"
    by (simp add: kg rx_blank_before_line [OF l'])
  then have sep: "kg (LF # join_nl (l' # ls) @ LF # LF # R, c) = None"
    by (simp add: t)
  have "star_lazy (rmatch (Atom is_any) s) kg (join_nl (l' # ls) @ LF # LF # R, c) = Some r"
    using 3 by simp
  then have "star_lazy (rmatch (Atom is_any) s) kg (LF # join_nl (l' # ls) @ LF # LF # R, c) = Some r"
    by (subst star_lazy_atom_Cons) (simp add: sep is_any_def)
  moreover have "star_lazy (rmatch (Atom is_any) s) kg (l @ LF # join_nl (l' # ls) @ LF # LF # R, c) =
      star_lazy (rmatch (Atom is_any) s) kg (LF # join_nl (l' # ls) @ LF # LF # R, c)"
    using 3(3) by (intro star_lazy_over_line [where kg = kg and c = c] other) simp_all
  ultimately show ?case by simp
qed

text \<open>A literal under the \<open>i\<close> flag.\<close>

lemma lit_i_Cons: "lit_i (a # w) = Seq (Atom (\<lambda>x. ascii_upper x = ascii_upper a)) (lit_i w)"
  by (simp add: lit_i_def)

lemma rmatch_lit_i:
  "map ascii_upper K = map ascii_upper w \<Longrightarrow> rmatch (lit_i w) s k (K @ rest, c) = k (rest, c)"
proof (induction w arbitrary: K)
  case Nil
  then show ?case by (simp add: lit_i_def rmatch_Eps)
next
  case (Cons a w)
  then obtain b K' where K: "K = b # K'" by (cases K) auto
  then show ?case using Cons by (simp add: lit_i_Cons rmatch_Seq rmatch_Atom_Cons)
qed

text \<open>The search for a match skips the start positions at which the pattern fails.\<close>

lemma search_skip:
  "(\<And>x xs. x \<in> set P \<Longrightarrow> rmatch r s Some (x # xs, None) = None) \<Longrightarrow>
     search r s (P @ rest) = search r s rest"
  by (induction P) simp_all

lemma search_hit: "rmatch r s Some (xs, None) = Some st \<Longrightarrow> search r s xs = Some st"
  by (cases xs) simp_all

lemma ascii_upper_Abstract: "map ascii_upper ''Abstract'' = ''ABSTRACT''"
  by code_simp

lemma ascii_upper_A: "ascii_upper (CHR ''A'') = CHR ''A''"
  by code_simp

lemma abstractRegex_first:
  "ascii_upper x \<noteq> CHR ''A'' \<Longrightarrow> rmatch abstractRegex s k (x # xs, c) = None"
  by (simp add: abstractRegex_def seq_def lit_i_Cons rmatch_Seq rmatch_Atom_Cons ascii_upper_A)

lemma abstractRegex_unfold:
  "rmatch abstractRegex s Some =
     rmatch (lit_i ''Abstract'') s
       (star_greedy (rmatch (Atom is_space) s)
          (rmatch rx_nl s
             (star_greedy (rmatch rx_nl s)
                (star_greedy (rmatch (Atom is_space) s)
                   (rmatch (Group (Lazy (Atom is_any))) s (rmatch rx_blank s Some))))))"
  by (simp add: abstractRegex_def seq_def Plus_def rmatch_Seq rmatch_Eps rmatch_Star)

text \<open>
  The match of the pattern of the abstract on a text of this shape: a part \<open>P\<close> without
  the letter A, the word \<open>K\<close>, white space \<open>W\<close> with a line feed, lines \<open>ls\<close> that each
  have a visible character, an empty line, and any rest \<open>R\<close>. Group 1 is the lines.
\<close>

lemma abstract_match:
  assumes P: "\<forall>x \<in> set P. ascii_upper x \<noteq> CHR ''A''"
    and K: "map ascii_upper K = ''ABSTRACT''"
    and W: "\<forall>x \<in> set W. is_space x" "LF \<in> set W"
    and ls: "ls \<noteq> []"
      "\<forall>l \<in> set ls. LF \<notin> set l \<and> CR \<notin> set l \<and> (\<exists>x \<in> set l. \<not> is_space x)"
      "\<not> is_space (hd (hd ls))"
  shows "match (P @ K @ W @ join_nl ls @ LF # LF # R) abstractRegex =
           Some (R, Some (join_nl ls @ LF # LF # R, LF # LF # R))"
proof -
  define X where "X = join_nl ls @ LF # LF # R"
  define s where "s = P @ K @ W @ X"
  define f :: mstate where "f = (R, Some (X, LF # LF # R))"
  define kG where "kG = rmatch (Group (Lazy (Atom is_any))) s (rmatch rx_blank s Some)"
  define k2 where "k2 = star_greedy (rmatch (Atom is_space) s) kG"
  define kS where "kS = star_greedy (rmatch rx_nl s) k2"
  define k1 where "k1 = rmatch rx_nl s kS"
  define k0 where "k0 = star_greedy (rmatch (Atom is_space) s) k1"
  obtain l ls' where lls: "ls = l # ls'" using ls(1) by (cases ls) auto
  obtain t where t: "join_nl ls = l @ t" using lls join_nl_Cons by blast
  have "l \<noteq> []" using ls(2) lls by auto
  then have X_ne: "X \<noteq> []" and hdX: "hd X = hd l"
    unfolding X_def t by simp_all
  have X_vis: "\<not> is_space (hd X)" using ls(3) hdX lls by simp
  have kG: "kG (X, c) = Some f" for c
  proof -
    have "star_lazy (rmatch (Atom is_any) s)
            (\<lambda>st'. rmatch rx_blank s Some (fst st', Some (X, fst st')))
            (join_nl ls @ LF # LF # R, c) = Some (R, Some (X, LF # LF # R))"
      by (rule star_lazy_lines [OF refl _ ls(1,2)]) simp
    then show ?thesis
      by (simp add: kG_def rmatch_Group rmatch_Lazy X_def f_def)
  qed
  have k2: "k2 (V @ X, c) = Some f" if "\<forall>x \<in> set V. is_space x" for V c
    unfolding k2_def using that X_vis kG by (intro star_greedy_run) simp_all
  have kS: "kS (V @ X, c) = Some f" if "\<forall>x \<in> set V. is_space x" for V c
    using that
  proof (induction "length V" arbitrary: V rule: less_induct)
    case less
    let ?K = "\<lambda>st'. if length (fst st') < length (fst (V @ X, c))
                     then star_greedy (rmatch rx_nl s) k2 st' else None"
    have unfold: "kS (V @ X, c) =
        (case rmatch rx_nl s ?K (V @ X, c) of Some r \<Rightarrow> Some r | None \<Rightarrow> k2 (V @ X, c))"
      unfolding kS_def by (subst star_greedy.simps) simp
    from rx_nl_on_space [OF less.prems X_ne X_vis, of s ?K c]
    show ?case
    proof
      assume "rmatch rx_nl s ?K (V @ X, c) = None"
      then show ?thesis using unfold k2 [OF less.prems] by simp
    next
      assume "\<exists>V'. (\<forall>x \<in> set V'. is_space x) \<and> length V' < length V \<and>
            rmatch rx_nl s ?K (V @ X, c) = ?K (V' @ X, c)"
      then obtain V' where V': "\<forall>x \<in> set V'. is_space x" "length V' < length V"
        and eq: "rmatch rx_nl s ?K (V @ X, c) = ?K (V' @ X, c)" by blast
      have "?K (V' @ X, c) = kS (V' @ X, c)" using V'(2) by (simp add: kS_def)
      also have "\<dots> = Some f" using V' by (intro less.hyps)
      finally show ?thesis using unfold eq by simp
    qed
  qed
  have k1: "k1 (V @ X, c) = None \<or> k1 (V @ X, c) = Some f" if "\<forall>x \<in> set V. is_space x" for V c
    using rx_nl_on_space [OF that X_ne X_vis, of s kS c] kS unfolding k1_def by auto
  from W(2) obtain W1 W2 where W12: "W = W1 @ LF # W2" by (auto dest: split_list)
  have "\<forall>x \<in> set W2. is_space x" using W(1) W12 by simp
  then have hit: "k1 ((LF # W2) @ X, None) = Some f"
    by (simp add: k1_def rx_nl_LF kS)
  have k0: "k0 (W @ X, None) = Some f"
    unfolding k0_def
  proof (rule star_greedy_succeeds
      [where V = W and X = X and k = k1 and c = None and r = f and ?W1.0 = W1 and ?W2.0 = "LF # W2"])
    show "\<forall>x \<in> set W. is_space x" by (rule W(1))
    show "W = W1 @ LF # W2" by (rule W12)
    show "k1 ((LF # W2) @ X, None) = Some f" by (rule hit)
    show "X = [] \<or> \<not> is_space (hd X)" using X_vis by simp
    fix V1 V2 assume "W = V1 @ V2"
    then have "\<forall>x \<in> set V2. is_space x" using W(1) by simp
    then show "k1 (V2 @ X, None) = None \<or> k1 (V2 @ X, None) = Some f" by (rule k1)
  qed
  have "rmatch abstractRegex s Some (K @ W @ X, None) = k0 (W @ X, None)"
    unfolding abstractRegex_unfold k0_def k1_def kS_def k2_def kG_def
    by (rule rmatch_lit_i) (simp only: K ascii_upper_Abstract)
  then have "search abstractRegex s (K @ W @ X) = Some f"
    using k0 by (intro search_hit) simp
  moreover have "search abstractRegex s (P @ K @ W @ X) = search abstractRegex s (K @ W @ X)"
    using P by (intro search_skip abstractRegex_first) simp
  ultimately show ?thesis
    by (simp add: match_def s_def X_def f_def)
qed

lemma txt_abstract_lines:
  assumes "\<forall>x \<in> set P. ascii_upper x \<noteq> CHR ''A''"
    and "map ascii_upper K = ''ABSTRACT''"
    and "\<forall>x \<in> set W. is_space x" and "LF \<in> set W"
    and "ls \<noteq> []"
    and "\<forall>l \<in> set ls. LF \<notin> set l \<and> CR \<notin> set l \<and> (\<exists>x \<in> set l. \<not> is_space x)"
    and "\<not> is_space (hd (hd ls))"
  shows "txt_abstract (P @ K @ W @ join_nl ls @ [LF, LF] @ R) = trim (replace_nl (join_nl ls))"
proof -
  obtain l ls' where lls: "ls = l # ls'" using assms(5) by (cases ls) auto
  obtain t where t: "join_nl ls = l @ t" using lls join_nl_Cons by blast
  have "l \<noteq> []" using assms(6) lls by auto
  then have ne: "join_nl ls \<noteq> []" by (simp add: t)
  have "match (P @ K @ W @ join_nl ls @ LF # LF # R) abstractRegex =
           Some (R, Some (join_nl ls @ LF # LF # R, LF # LF # R))"
    using assms by (rule abstract_match)
  then show ?thesis
    using ne by (simp add: txt_abstract_def truthy_group1_def group1_def)
qed

section \<open>The abstract of a text\<close>




end
